theory Spec2Isabelle
  imports Main
begin

section \<open>Data model of \<open>nonparametric/causal_reg.py\<close>\<close>

text \<open>
  The estimator class \<open>CausalEffect\<close> is embedded with explicit state and explicit errors.

  \<^item> Numbers (numpy floats) are an arbitrary type \<open>'n\<close> that only carries the operation
    symbols \<open>0\<close>, \<open>+\<close>, \<open>-\<close>, \<open>*\<close>, unary minus and \<open>\<le>\<close>; no algebraic law is assumed,
    so every theorem holds for floating-point arithmetic as well as for exact arithmetic.
  \<^item> The libraries the class calls (statsmodels, scipy, numpy, pandas reductions, and the
    interpreter's iteration orders) are the fields of the record \<open>libs\<close>.
  \<^item> A fitted model object is the record of the arguments its constructor received; what
    the library computes from it (\<open>pdf\<close>, the fitted \<open>bw\<close> vector, a prediction) is a
    function of \<open>libs\<close> applied to that record.
  \<^item> A variable-type tag is one of \<open>'c'\<close>, \<open>'o'\<close>, \<open>'u'\<close>, as the constructor's docstring
    requires.
  \<^item> Tables and one-row frames are association lists with distinct column labels.
  \<^item> The \<open>print\<close> statements of \<open>biased_mutual_information\<close> are not modelled.
\<close>

datatype var_type = Continuous | Ordered | Unordered

datatype bw_rule = cv_ml | normal_reference | cv_ls

datatype error =
    KeyError | NameError | AttributeError | ValueError | EstimationError | TooFewArgs

type_synonym 'n table = "(string \<times> 'n list) list"

type_synonym 'n frame = "(string \<times> 'n) list"

record 'n KDEMultivariate =
  kde_data :: "'n list list"
  kde_var_type :: "var_type list"
  kde_bw_arg :: bw_rule

record 'n KDEMultivariateConditional =
  ckde_endog :: "'n list list"
  ckde_exog :: "'n list list"
  ckde_dep_type :: "var_type list"
  ckde_indep_type :: "var_type list"
  ckde_bw_arg :: bw_rule

record 'n KernelReg =
  reg_endog :: "'n list list"
  reg_exog :: "'n list list"
  reg_var_type :: "var_type list"
  reg_bw_arg :: bw_rule

record 'n libs =
  kde_fit_fails :: "'n KDEMultivariate \<Rightarrow> bool"
  ckde_fit_fails :: "'n KDEMultivariateConditional \<Rightarrow> bool"
  reg_fit_fails :: "'n KernelReg \<Rightarrow> bool"
  kde_pdf :: "'n KDEMultivariate \<Rightarrow> 'n list \<Rightarrow> 'n"
  ckde_pdf :: "'n KDEMultivariateConditional \<Rightarrow> 'n list \<Rightarrow> 'n list \<Rightarrow> 'n"
  ckde_bw :: "'n KDEMultivariateConditional \<Rightarrow> 'n list"
  reg_fit :: "'n KernelReg \<Rightarrow> 'n list \<Rightarrow> 'n"
  nquad :: "('n list \<Rightarrow> error + 'n) \<Rightarrow> ('n \<times> 'n) list \<Rightarrow> error + 'n"
  np_log :: "'n \<Rightarrow> 'n"
  py_int :: "'n \<Rightarrow> int"
  py_float :: "int \<Rightarrow> 'n"
  col_min :: "'n list \<Rightarrow> 'n"
  col_max :: "'n list \<Rightarrow> 'n"
  set_rank :: "string \<Rightarrow> nat"
  col_rank :: "string \<Rightarrow> nat"

record 'n CausalEffect =
  causes :: "string list"
  effects :: "string list"
  admissable_set :: "string list"
  conditional_density_vars :: "string list"
  variable_types :: "(string \<times> var_type) list"
  density :: "'n KDEMultivariate option"
  conditional_density :: "'n KDEMultivariateConditional"
  conditional_expectation :: "'n KernelReg option"
  support :: "string \<rightharpoonup> 'n \<times> 'n"
  discrete_variables :: "string list"
  discrete_Z :: "string list"
  continuous_variables :: "string list"
  continuous_Z :: "string list"
  x1 :: "string option"
  x2 :: "string option"
  mi_density :: "'n KDEMultivariate option"
  mi_conditional_density :: "'n KDEMultivariateConditional option"
  x1_integration_density :: "'n KDEMultivariate option"
  integration_density :: "'n KDEMultivariate option"
  cond_integration_density :: "'n KDEMultivariateConditional option"

section \<open>Exceptions, containers and library constructors\<close>

text \<open>Sequencing of computations that may raise: the first exception ends the run.\<close>

definition ebind :: "error + 'a \<Rightarrow> ('a \<Rightarrow> error + 'b) \<Rightarrow> error + 'b" where
  "ebind m f = (case m of Inl err \<Rightarrow> Inl err | Inr v \<Rightarrow> f v)"

text \<open>\<open>d[k]\<close> on a dictionary, and an attribute that may never have been assigned.\<close>

definition getitem :: "('k \<rightharpoonup> 'v) \<Rightarrow> 'k \<Rightarrow> error + 'v" where
  "getitem d k = (case d k of None \<Rightarrow> Inl KeyError | Some v \<Rightarrow> Inr v)"

definition getattr :: "'a option \<Rightarrow> error + 'a" where
  "getattr a = (case a of None \<Rightarrow> Inl AttributeError | Some v \<Rightarrow> Inr v)"

text \<open>\<open>[d[k] for k in ks]\<close>: a list comprehension of dictionary lookups.\<close>

fun getitems :: "('k \<rightharpoonup> 'v) \<Rightarrow> 'k list \<Rightarrow> error + 'v list" where
  "getitems d [] = Inr []"
| "getitems d (k # ks) =
     ebind (getitem d k) (\<lambda>v. ebind (getitems d ks) (\<lambda>vs. Inr (v # vs)))"

text \<open>\<open>X[names]\<close> on the sample: the selected columns, in the order asked for.\<close>

definition columns :: "'n table \<Rightarrow> string list \<Rightarrow> error + 'n list list" where
  "columns X names = getitems (map_of X) names"

text \<open>\<open>x[names]\<close> on a one-row frame keeps the labels.\<close>

definition select :: "'n frame \<Rightarrow> string list \<Rightarrow> error + 'n frame" where
  "select fr names = ebind (getitems (map_of fr) names) (\<lambda>vs. Inr (zip names vs))"

text \<open>\<open>fr.values[0]\<close>: the row, in column order.\<close>

definition row_values :: "'n frame \<Rightarrow> 'n list" where
  "row_values fr = map snd fr"

text \<open>\<open>a.join(b)\<close>: pandas refuses overlapping column labels.\<close>

definition join :: "'n frame \<Rightarrow> 'n frame \<Rightarrow> error + 'n frame" where
  "join a b =
     (if set (map fst a) \<inter> set (map fst b) \<noteq> {} then Inl ValueError else Inr (a @ b))"

text \<open>
  \<open>pd.DataFrame({k : [v] for k, v in zip(ks, vs)})\<close>: a later pair overrides an earlier
  one with the same key; the column order is the one pandas gives to the keys of a
  dictionary, modelled as a stable sort by an arbitrary rank.
\<close>

definition DataFrame :: "'n libs \<Rightarrow> (string \<times> 'n) list \<Rightarrow> 'n frame" where
  "DataFrame L kvs =
     map (\<lambda>k. (k, the (map_of (rev kvs) k)))
       (sort_key (col_rank L) (remdups (map fst kvs)))"

text \<open>\<open>list(set(xs))\<close>: the elements once each, in the set's iteration order.\<close>

definition list_of_set :: "'n libs \<Rightarrow> string list \<Rightarrow> string list" where
  "list_of_set L xs = sort_key (set_rank L) (remdups xs)"

definition new_KDEMultivariate ::
  "'n libs \<Rightarrow> 'n list list \<Rightarrow> var_type list \<Rightarrow> bw_rule \<Rightarrow> error + 'n KDEMultivariate" where
  "new_KDEMultivariate L d ts b =
     (let m = \<lparr>kde_data = d, kde_var_type = ts, kde_bw_arg = b\<rparr>
      in if kde_fit_fails L m then Inl EstimationError else Inr m)"

definition new_KDEMultivariateConditional ::
  "'n libs \<Rightarrow> 'n list list \<Rightarrow> 'n list list \<Rightarrow> var_type list \<Rightarrow> var_type list \<Rightarrow> bw_rule
     \<Rightarrow> error + 'n KDEMultivariateConditional" where
  "new_KDEMultivariateConditional L en ex dt it b =
     (let m = \<lparr>ckde_endog = en, ckde_exog = ex, ckde_dep_type = dt,
                ckde_indep_type = it, ckde_bw_arg = b\<rparr>
      in if ckde_fit_fails L m then Inl EstimationError else Inr m)"

definition new_KernelReg ::
  "'n libs \<Rightarrow> 'n list list \<Rightarrow> 'n list list \<Rightarrow> var_type list \<Rightarrow> bw_rule \<Rightarrow> error + 'n KernelReg" where
  "new_KernelReg L en ex ts b =
     (let m = \<lparr>reg_endog = en, reg_exog = ex, reg_var_type = ts, reg_bw_arg = b\<rparr>
      in if reg_fit_fails L m then Inl EstimationError else Inr m)"

section \<open>Construction\<close>

text \<open>Lines 76--86, \<open>__get_support\<close>. The loop over \<open>effects + conditional_density_vars\<close>.\<close>

definition data_support :: "'n libs \<Rightarrow> 'n table \<Rightarrow> (string \<rightharpoonup> 'n \<times> 'n)" where
  "data_support L X =
     (\<lambda>v. map_option (\<lambda>col. (col_min L col, col_max L col)) (map_of X v))"

definition variable_bandwidths :: "string list \<Rightarrow> 'n list \<Rightarrow> (string \<rightharpoonup> 'n)" where
  "variable_bandwidths vars bws = map_of (rev (zip vars bws))"

fun support_loop ::
  "'n::{plus,minus,times} libs \<Rightarrow> (string \<rightharpoonup> var_type) \<Rightarrow> (string \<rightharpoonup> 'n \<times> 'n) \<Rightarrow> (string \<rightharpoonup> 'n)
     \<Rightarrow> string list \<Rightarrow> (string \<rightharpoonup> 'n \<times> 'n) \<Rightarrow> error + (string \<rightharpoonup> 'n \<times> 'n)" where
  "support_loop L vt ds vb [] acc = Inr acc"
| "support_loop L vt ds vb (v # vs) acc =
     ebind (getitem vt v) (\<lambda>t.
       if t = Continuous then
         ebind (getitem ds v) (\<lambda>d.
         ebind (getitem vb v) (\<lambda>b.
           support_loop L vt ds vb vs
             (acc(v \<mapsto> (fst d - py_float L 10 * b, snd d + py_float L 10 * b)))))
       else
         ebind (getitem ds v) (\<lambda>d. support_loop L vt ds vb vs (acc(v \<mapsto> d))))"

definition get_support ::
  "'n::{plus,minus,times} libs \<Rightarrow> 'n table \<Rightarrow> (string \<times> var_type) list \<Rightarrow> string list \<Rightarrow> string list
     \<Rightarrow> 'n KDEMultivariateConditional \<Rightarrow> error + (string \<rightharpoonup> 'n \<times> 'n)" where
  "get_support L X vt es cdv cond =
     support_loop L (map_of vt) (data_support L X)
       (variable_bandwidths (es @ cdv) (ckde_bw L cond)) (es @ cdv) Map.empty"

text \<open>Lines 34--37: the bandwidth rule of the constructor.\<close>

definition init_bw :: "(string \<times> var_type) list \<Rightarrow> bw_rule" where
  "init_bw vt = (if Continuous \<notin> set (map snd vt) then cv_ml else normal_reference)"

text \<open>
  Lines 20--61, \<open>__init__\<close>. The argument \<open>vt_arg\<close> is \<open>None\<close> by default; an empty
  dictionary is as false as \<open>None\<close>, and \<open>__infer_variable_types\<close> returns \<open>None\<close>.
  In that branch \<open>dep_type\<close>, \<open>indep_type\<close> and \<open>density_types\<close> are never bound.
  The flag \<open>density\<close> of the source is not read by it.
\<close>

definition CausalEffect_init ::
  "'n::{plus,minus,times} libs \<Rightarrow> 'n table \<Rightarrow> string list \<Rightarrow> string list \<Rightarrow> string list
     \<Rightarrow> (string \<times> var_type) list option \<Rightarrow> bool \<Rightarrow> error + 'n CausalEffect" where
  "CausalEffect_init L X cs es adm vt_arg expectation =
     (let cdv = cs @ adm in
      ebind (case vt_arg of
               None \<Rightarrow> Inr None
             | Some vt \<Rightarrow>
                 if vt \<noteq> [] then
                   ebind (getitems (map_of vt) es) (\<lambda>dep.
                   ebind (getitems (map_of vt) cdv) (\<lambda>indep.
                   ebind (getitems (map_of vt) adm) (\<lambda>dts. Inr (Some (dep, indep, dts)))))
                 else Inr None) (\<lambda>tys.
      ebind (case vt_arg of None \<Rightarrow> Inl AttributeError | Some vt \<Rightarrow> Inr vt) (\<lambda>vt.
      let bw = init_bw vt in
      ebind (if adm \<noteq> [] then
               ebind (columns X adm) (\<lambda>d.
               ebind (case tys of None \<Rightarrow> Inl NameError | Some (_, _, dts) \<Rightarrow> Inr dts) (\<lambda>dts.
               ebind (new_KDEMultivariate L d dts bw) (\<lambda>m. Inr (Some m))))
             else Inr None) (\<lambda>dens.
      ebind (columns X es) (\<lambda>en.
      ebind (columns X cdv) (\<lambda>ex.
      ebind (case tys of None \<Rightarrow> Inl NameError | Some (dep, indep, _) \<Rightarrow> Inr (dep, indep))
        (\<lambda>(dep, indep).
      ebind (new_KDEMultivariateConditional L en ex dep indep bw) (\<lambda>cond.
      ebind (if expectation
             then ebind (new_KernelReg L en ex indep cv_ls) (\<lambda>r. Inr (Some r))
             else Inr None) (\<lambda>reg.
      ebind (get_support L X vt es cdv cond) (\<lambda>supp.
      let dv = map fst (filter (\<lambda>(v, t). t = Ordered \<or> t = Unordered) vt);
          cv = map fst (filter (\<lambda>(v, t). t = Continuous) vt)
      in Inr \<lparr>causes = cs, effects = es, admissable_set = adm,
               conditional_density_vars = cdv, variable_types = vt,
               density = dens, conditional_density = cond,
               conditional_expectation = reg, support = supp,
               discrete_variables = dv,
               discrete_Z = list_of_set L (filter (\<lambda>v. v \<in> set adm) dv),
               continuous_variables = cv,
               continuous_Z = list_of_set L (filter (\<lambda>v. v \<in> set adm) cv),
               x1 = None, x2 = None, mi_density = None, mi_conditional_density = None,
               x1_integration_density = None, integration_density = None,
               cond_integration_density = None\<rparr>))))))))))"

section \<open>Queries\<close>

text \<open>
  Lines 143--149, \<open>integration_function\<close>: the integrand \<open>nquad\<close> calls with the
  coordinates of a quadrature point followed by the extra arguments.
\<close>

definition integration_function :: "'n::times libs \<Rightarrow> 'n CausalEffect \<Rightarrow> 'n list \<Rightarrow> error + 'n" where
  "integration_function L e args =
     (let data = DataFrame L
            (zip (continuous_Z e @ discrete_Z e @ causes e @ effects e) args) in
      ebind (select data (conditional_density_vars e)) (\<lambda>exog.
      ebind (select data (effects e)) (\<lambda>endog.
      let conditional = ckde_pdf L (conditional_density e) (row_values exog) (row_values endog) in
      ebind (getattr (density e)) (\<lambda>dens.
      ebind (select data (admissable_set e)) (\<lambda>z.
      Inr (conditional * kde_pdf L dens (row_values z)))))))"

text \<open>Lines 152--156, \<open>expectation_integration_function\<close>.\<close>

definition expectation_integration_function ::
  "'n::times libs \<Rightarrow> 'n CausalEffect \<Rightarrow> 'n list \<Rightarrow> error + 'n" where
  "expectation_integration_function L e args =
     (let data = DataFrame L (zip (continuous_Z e @ discrete_Z e @ causes e) args) in
      ebind (getattr (conditional_expectation e)) (\<lambda>reg.
      ebind (select data (conditional_density_vars e)) (\<lambda>exog.
      let conditional = reg_fit L reg (row_values exog) in
      ebind (getattr (density e)) (\<lambda>dens.
      ebind (select data (admissable_set e)) (\<lambda>z.
      Inr (conditional * kde_pdf L dens (row_values z)))))))"

text \<open>
  Lines 174 and 214: one \<open>xrange(int(lo), int(hi) + 1)\<close> for each discrete confounder.
\<close>

definition discrete_variable_ranges :: "'n libs \<Rightarrow> 'n CausalEffect \<Rightarrow> error + int list list" where
  "discrete_variable_ranges L e =
     ebind (getitems (support e) (discrete_Z e)) (\<lambda>sups.
       Inr (map (\<lambda>s. [py_int L (fst s) .. py_int L (snd s)]) sups))"

text \<open>
  Lines 176--188: the body of the loop of \<open>pdf\<close> over \<open>itertools.product\<close>, for one
  point \<open>z_vals\<close>; it returns what the iteration adds to \<open>causal_effect\<close>. The integers
  of the point become numbers when pandas stores them beside the query's columns.
\<close>

definition pdf_term ::
  "'n::times libs \<Rightarrow> 'n CausalEffect \<Rightarrow> 'n frame \<Rightarrow> int list \<Rightarrow> error + 'n" where
  "pdf_term L e x z_vals =
     (let z_discrete = DataFrame L (zip (discrete_Z e) (map (py_float L) z_vals)) in
      if continuous_Z e \<noteq> [] then
        ebind (getitems (support e) (continuous_Z e)) (\<lambda>continuous_Z_ranges.
        ebind (join z_discrete x) (\<lambda>j.
        nquad L (\<lambda>pt. integration_function L e (pt @ row_values j)) continuous_Z_ranges))
      else
        ebind (select z_discrete (admissable_set e)) (\<lambda>z.
        ebind (join x z) (\<lambda>j.
        ebind (select j (conditional_density_vars e)) (\<lambda>exog_predictors.
        ebind (select x (effects e)) (\<lambda>endog.
        let conditional = ckde_pdf L (conditional_density e)
                            (row_values exog_predictors) (row_values endog) in
        ebind (getattr (density e)) (\<lambda>dens.
        Inr (conditional * kde_pdf L dens (row_values z))))))))"

fun pdf_loop ::
  "'n::{plus,times} libs \<Rightarrow> 'n CausalEffect \<Rightarrow> 'n frame \<Rightarrow> int list list \<Rightarrow> 'n \<Rightarrow> error + 'n" where
  "pdf_loop L e x [] causal_effect = Inr causal_effect"
| "pdf_loop L e x (z_vals # rest) causal_effect =
     ebind (pdf_term L e x z_vals) (\<lambda>dc. pdf_loop L e x rest (causal_effect + dc))"

text \<open>Lines 171--195, \<open>pdf\<close>.\<close>

definition pdf :: "'n::{zero,plus,times} libs \<Rightarrow> 'n CausalEffect \<Rightarrow> 'n frame \<Rightarrow> error + 'n" where
  "pdf L e x0 =
     ebind (select x0 (causes e @ effects e)) (\<lambda>x.
       if discrete_Z e \<noteq> [] then
         ebind (discrete_variable_ranges L e) (\<lambda>rs. pdf_loop L e x (product_lists rs) 0)
       else if continuous_Z e \<noteq> [] then
         ebind (getitems (support e) (continuous_Z e)) (\<lambda>continuous_Z_ranges.
         nquad L (\<lambda>pt. integration_function L e (pt @ row_values x)) continuous_Z_ranges)
       else
         ebind (select x (causes e)) (\<lambda>exog.
         ebind (select x (effects e)) (\<lambda>endog.
         Inr (ckde_pdf L (conditional_density e) (row_values exog) (row_values endog)))))"

text \<open>Lines 216--224: the body of the loop of \<open>expected_value\<close>.\<close>

definition expected_value_term ::
  "'n::times libs \<Rightarrow> 'n CausalEffect \<Rightarrow> 'n frame \<Rightarrow> int list \<Rightarrow> error + 'n" where
  "expected_value_term L e x z_vals =
     (let z_discrete = DataFrame L (zip (discrete_Z e) (map (py_float L) z_vals)) in
      if continuous_Z e \<noteq> [] then
        ebind (getitems (support e) (continuous_Z e)) (\<lambda>continuous_Z_ranges.
        ebind (join z_discrete x) (\<lambda>j.
        nquad L (\<lambda>pt. expectation_integration_function L e (pt @ row_values j))
          continuous_Z_ranges))
      else
        ebind (select z_discrete (admissable_set e)) (\<lambda>z.
        ebind (join x z) (\<lambda>j.
        ebind (select j (conditional_density_vars e)) (\<lambda>exog_predictors.
        ebind (getattr (conditional_expectation e)) (\<lambda>reg.
        ebind (getattr (density e)) (\<lambda>dens.
        Inr (reg_fit L reg (row_values exog_predictors)
               * kde_pdf L dens (row_values z))))))))"

fun expected_value_loop ::
  "'n::{plus,times} libs \<Rightarrow> 'n CausalEffect \<Rightarrow> 'n frame \<Rightarrow> int list list \<Rightarrow> 'n \<Rightarrow> error + 'n" where
  "expected_value_loop L e x [] causal_effect = Inr causal_effect"
| "expected_value_loop L e x (z_vals # rest) causal_effect =
     ebind (expected_value_term L e x z_vals)
       (\<lambda>t. expected_value_loop L e x rest (causal_effect + t))"

text \<open>Lines 211--231, \<open>expected_value\<close>.\<close>

definition expected_value ::
  "'n::{zero,plus,times} libs \<Rightarrow> 'n CausalEffect \<Rightarrow> 'n frame \<Rightarrow> error + 'n" where
  "expected_value L e x0 =
     ebind (select x0 (causes e)) (\<lambda>x.
       if discrete_Z e \<noteq> [] then
         ebind (discrete_variable_ranges L e)
           (\<lambda>rs. expected_value_loop L e x (product_lists rs) 0)
       else if continuous_Z e \<noteq> [] then
         ebind (getitems (support e) (continuous_Z e)) (\<lambda>continuous_Z_ranges.
         nquad L (\<lambda>pt. expectation_integration_function L e (pt @ row_values x))
           continuous_Z_ranges)
       else
         ebind (getattr (conditional_expectation e)) (\<lambda>reg.
         ebind (select x (causes e)) (\<lambda>exog.
         Inr (reg_fit L reg (row_values exog)))))"

section \<open>Mutual information\<close>

text \<open>
  Lines 125--139, \<open>entropy_integration_function\<close>. Python reads \<open>- a * p * np.log(p)\<close>
  as \<open>((- a) * p) * np.log(p)\<close>.
\<close>

definition entropy_integration_function ::
  "'n::{uminus,times} libs \<Rightarrow> 'n CausalEffect \<Rightarrow> 'n list \<Rightarrow> error + 'n" where
  "entropy_integration_function L e args =
     ebind (if length args = 2 then
              ebind (getattr (x1 e)) (\<lambda>a. ebind (getattr (x2 e)) (\<lambda>b. Inr [a, b]))
            else if length args = 1 then
              ebind (getattr (x2 e)) (\<lambda>b. Inr [b])
            else Inl TooFewArgs) (\<lambda>var.
     let data = DataFrame L (zip var args) in
     if length args = 2 then
       ebind (getattr (cond_integration_density e)) (\<lambda>cond.
       ebind (getattr (x1 e)) (\<lambda>a.
       ebind (getitem (map_of data) a) (\<lambda>va.
       ebind (getattr (x2 e)) (\<lambda>b.
       ebind (getitem (map_of data) b) (\<lambda>vb.
       let p = ckde_pdf L cond [va] [vb] in
       ebind (getattr (x1_integration_density e)) (\<lambda>dens.
       Inr ((- kde_pdf L dens [va]) * p * np_log L p)))))))
     else
       ebind (getattr (integration_density e)) (\<lambda>dens.
       ebind (getattr (x2 e)) (\<lambda>b.
       ebind (getitem (map_of data) b) (\<lambda>vb.
       let p = kde_pdf L dens [vb] in
       Inr ((- p) * np_log L p)))))"

text \<open>
  Lines 93--123, \<open>biased_mutual_information\<close>. The method assigns to attributes of the
  estimator, so it returns the estimator as it is when the method ends or raises.
\<close>

definition biased_mutual_information ::
  "'n::{uminus,minus,times} libs \<Rightarrow> 'n CausalEffect \<Rightarrow> 'n table \<Rightarrow> string \<Rightarrow> string
     \<Rightarrow> (error + 'n) \<times> 'n CausalEffect" where
  "biased_mutual_information L e X a b =
     (let e1 = e\<lparr>x1 := Some a, x2 := Some b\<rparr> in
      case ebind (getitem (map_of (variable_types e1)) a) (\<lambda>ta.
           ebind (getitem (map_of (variable_types e1)) b) (\<lambda>tb. Inr (ta, tb))) of
        Inl err \<Rightarrow> (Inl err, e1)
      | Inr (ta, tb) \<Rightarrow>
     (let dep_type = [ta]; indep_type = [tb]; density_types = [ta, tb];
          bw = (if Continuous \<notin> set density_types then cv_ml else normal_reference) in
      case ebind (columns X [b]) (\<lambda>d. new_KDEMultivariate L d dep_type bw) of
        Inl err \<Rightarrow> (Inl err, e1)
      | Inr m1 \<Rightarrow>
     (let e2 = e1\<lparr>mi_density := Some m1\<rparr> in
      case ebind (columns X [b]) (\<lambda>en.
           ebind (columns X [a]) (\<lambda>ex.
           new_KDEMultivariateConditional L en ex dep_type indep_type bw)) of
        Inl err \<Rightarrow> (Inl err, e2)
      | Inr m2 \<Rightarrow>
     (let e3 = e2\<lparr>mi_conditional_density := Some m2\<rparr> in
      case ebind (columns X [b]) (\<lambda>d. new_KDEMultivariate L d dep_type bw) of
        Inl err \<Rightarrow> (Inl err, e3)
      | Inr m3 \<Rightarrow>
     (let e4 = e3\<lparr>x1_integration_density := Some m3\<rparr> in
      case getitem (support e4) b of
        Inl err \<Rightarrow> (Inl err, e4)
      | Inr x2_range \<Rightarrow>
     (let e5 = e4\<lparr>integration_density := mi_density e4,
                  cond_integration_density := mi_conditional_density e4\<rparr> in
      (ebind (nquad L (entropy_integration_function L e5) [x2_range]) (\<lambda>Hx2.
       ebind (getitem (support e5) a) (\<lambda>r1.
       ebind (getitem (support e5) b) (\<lambda>r2.
       ebind (nquad L (entropy_integration_function L e5) [r1, r2]) (\<lambda>Hx2givenx1.
       Inr (Hx2 - Hx2givenx1))))), e5)))))))"

section \<open>A small instance\<close>

text \<open>
  A library instance over the integers and a four-column sample, on which the model runs:
  densities that depend on the query point, unit bandwidths, a one-point quadrature at the
  lower corner of the box, and iteration orders that keep the order of insertion.
\<close>

definition toy_libs :: "int libs" where
  "toy_libs =
     \<lparr>kde_fit_fails = (\<lambda>m. False), ckde_fit_fails = (\<lambda>m. False), reg_fit_fails = (\<lambda>m. False),
      kde_pdf = (\<lambda>m q. 1 + sum_list (map abs q)),
      ckde_pdf = (\<lambda>m ex en. 2 + sum_list (map abs ex) + 3 * sum_list (map abs en)),
      ckde_bw = (\<lambda>m. map (\<lambda>c. 1) (ckde_endog m @ ckde_exog m)),
      reg_fit = (\<lambda>m q. 5 + sum_list q),
      nquad = (\<lambda>f box. f (map fst box)),
      np_log = (\<lambda>p. p - 1),
      py_int = (\<lambda>v. v), py_float = (\<lambda>i. i),
      col_min = (\<lambda>c. fold min c (hd c)), col_max = (\<lambda>c. fold max c (hd c)),
      set_rank = (\<lambda>s. 0), col_rank = (\<lambda>s. 0)\<rparr>"

definition toy_X :: "int table" where
  "toy_X = [(''a'', [3, 9, 5]), (''c'', [1, 2, 2]), (''d'', [7, 4, 6]), (''z'', [0, 1, 1])]"

definition toy_types :: "(string \<times> var_type) list" where
  "toy_types = [(''a'', Continuous), (''c'', Ordered), (''d'', Ordered), (''z'', Unordered)]"

section \<open>Notions of the specification\<close>

text \<open>
  The inclusive integer ranges the support cube records for the discrete confounders, one
  per element of \<open>discrete_Z\<close>, and the row a point of their Cartesian product assigns to
  the admissible set (the point is indexed like \<open>discrete_Z\<close>, the row like
  \<open>admissable_set\<close>).
\<close>

definition support_ranges :: "'n libs \<Rightarrow> 'n CausalEffect \<Rightarrow> int list list" where
  "support_ranges L e =
     map (\<lambda>v. case support e v of
                None \<Rightarrow> []
              | Some s \<Rightarrow> [py_int L (fst s) .. py_int L (snd s)]) (discrete_Z e)"

definition point_row :: "'n libs \<Rightarrow> 'n CausalEffect \<Rightarrow> int list \<Rightarrow> 'n list" where
  "point_row L e pt =
     map (\<lambda>a. py_float L (the (map_of (zip (discrete_Z e) pt) a))) (admissable_set e)"

text \<open>The estimator the constructor returns on the small instance, written out.\<close>

definition toy_effect :: "int CausalEffect" where
  "toy_effect =
     \<lparr>causes = [''c''], effects = [''d''], admissable_set = [''z''],
      conditional_density_vars = [''c'', ''z''], variable_types = toy_types,
      density = Some \<lparr>kde_data = [[0, 1, 1]], kde_var_type = [Unordered],
                       kde_bw_arg = normal_reference\<rparr>,
      conditional_density =
        \<lparr>ckde_endog = [[7, 4, 6]], ckde_exog = [[1, 2, 2], [0, 1, 1]],
         ckde_dep_type = [Ordered], ckde_indep_type = [Ordered, Unordered],
         ckde_bw_arg = normal_reference\<rparr>,
      conditional_expectation =
        Some \<lparr>reg_endog = [[7, 4, 6]], reg_exog = [[1, 2, 2], [0, 1, 1]],
               reg_var_type = [Ordered, Unordered], reg_bw_arg = cv_ls\<rparr>,
      support = [''d'' \<mapsto> (4, 7), ''c'' \<mapsto> (1, 2), ''z'' \<mapsto> (0, 1)],
      discrete_variables = [''c'', ''d'', ''z''], discrete_Z = [''z''],
      continuous_variables = [''a''], continuous_Z = [],
      x1 = None, x2 = None, mi_density = None, mi_conditional_density = None,
      x1_integration_density = None, integration_density = None,
      cond_integration_density = None\<rparr>"

text \<open>
  The contracts of the consumed interfaces that nonnegativity rests on: density
  evaluations are nonnegative; the quadrature of an integrand all of whose values are
  nonnegative is nonnegative; and the arithmetic of the numbers keeps nonnegative sums and
  products nonnegative (as floating-point arithmetic does on finite numbers).
\<close>

definition nonneg_contracts :: "'n::{zero,plus,times,ord} libs \<Rightarrow> bool" where
  "nonneg_contracts L \<longleftrightarrow>
     (\<forall>m q. 0 \<le> kde_pdf L m q) \<and>
     (\<forall>m a b. 0 \<le> ckde_pdf L m a b) \<and>
     (\<forall>f box r. (\<forall>p v. f p = Inr v \<longrightarrow> 0 \<le> v) \<longrightarrow> nquad L f box = Inr r \<longrightarrow> 0 \<le> r) \<and>
     (0 :: 'n) \<le> 0 \<and>
     (\<forall>a b :: 'n. 0 \<le> a \<longrightarrow> 0 \<le> b \<longrightarrow> 0 \<le> a + b) \<and>
     (\<forall>a b :: 'n. 0 \<le> a \<longrightarrow> 0 \<le> b \<longrightarrow> 0 \<le> a * b)"

(*DEFS_END*)

section \<open>Basic facts\<close>

lemmas toy_simps = toy_libs_def toy_X_def toy_types_def CausalEffect_init_def columns_def
  getitem_def getattr_def new_KDEMultivariate_def new_KDEMultivariateConditional_def
  new_KernelReg_def get_support_def data_support_def variable_bandwidths_def list_of_set_def
  init_bw_def Let_def

lemma ebind_Inr [simp]: "ebind (Inr v) f = f v"
  by (simp add: ebind_def)

lemma ebind_Inl [simp]: "ebind (Inl err) f = Inl err"
  by (simp add: ebind_def)

lemma ebind_eq_Inr: "ebind m f = Inr r \<longleftrightarrow> (\<exists>v. m = Inr v \<and> f v = Inr r)"
  by (cases m) simp_all

lemma getitem_eq_Inr: "getitem d k = Inr v \<longleftrightarrow> d k = Some v"
  by (simp add: getitem_def split: option.splits)

lemma getattr_eq_Inr: "getattr a = Inr v \<longleftrightarrow> a = Some v"
  by (simp add: getattr_def split: option.splits)

lemma getitems_eq_Inr:
  "getitems d ks = Inr vs \<longleftrightarrow> map d ks = map Some vs"
proof (induction ks arbitrary: vs)
  case Nil
  show ?case by auto
next
  case (Cons k ks)
  show ?case
    by (cases vs) (auto simp: ebind_eq_Inr getitem_eq_Inr Cons.IH)
qed

lemma init_Inr:
  assumes "CausalEffect_init L X cs es adm vt_arg expectation = Inr e"
  shows "\<exists>vt dep indep en ex.
           vt_arg = Some vt \<and> vt \<noteq> [] \<and>
           getitems (map_of vt) es = Inr dep \<and>
           getitems (map_of vt) (cs @ adm) = Inr indep \<and>
           columns X es = Inr en \<and> columns X (cs @ adm) = Inr ex \<and>
           conditional_density e =
             \<lparr>ckde_endog = en, ckde_exog = ex, ckde_dep_type = dep,
               ckde_indep_type = indep, ckde_bw_arg = init_bw vt\<rparr> \<and>
           get_support L X vt es (cs @ adm) (conditional_density e) = Inr (support e) \<and>
           causes e = cs \<and> effects e = es \<and> admissable_set e = adm \<and>
           conditional_density_vars e = cs @ adm \<and> variable_types e = vt \<and>
           discrete_Z e = list_of_set L (filter (\<lambda>v. v \<in> set adm)
              (map fst (filter (\<lambda>(v, t). t = Ordered \<or> t = Unordered) vt))) \<and>
           continuous_Z e = list_of_set L (filter (\<lambda>v. v \<in> set adm)
              (map fst (filter (\<lambda>(v, t). t = Continuous) vt)))"
  using assms
  by (auto simp: CausalEffect_init_def Let_def ebind_eq_Inr new_KDEMultivariateConditional_def
      split: option.splits if_splits prod.splits)

lemma getitems_length: "getitems d ks = Inr vs \<Longrightarrow> length vs = length ks"
  by (auto simp: getitems_eq_Inr dest: arg_cong [where f = length])

lemma getitems_cong:
  "(\<And>k. k \<in> set ks \<Longrightarrow> d k = d' k) \<Longrightarrow> getitems d ks = getitems d' ks"
  by (induction ks) (simp_all add: getitem_def)

lemma getitems_append:
  "getitems d ks = Inr vs \<Longrightarrow> getitems d ks' = Inr vs' \<Longrightarrow> getitems d (ks @ ks') = Inr (vs @ vs')"
  by (simp add: getitems_eq_Inr)

lemma map_of_zip_lookups:
  "map d ks = map Some vs \<Longrightarrow> k \<in> set ks \<Longrightarrow> map_of (zip ks vs) k = d k"
proof (induction ks arbitrary: vs)
  case Nil
  then show ?case by simp
next
  case (Cons a ks)
  then show ?case by (cases vs) auto
qed

lemma getitems_zip_sub:
  assumes "getitems d ks = Inr vs" and "set names \<subseteq> set ks"
  shows "getitems (map_of (zip ks vs)) names = getitems d names"
proof (rule getitems_cong)
  fix k assume "k \<in> set names"
  with assms(2) have "k \<in> set ks" by auto
  with assms(1) show "map_of (zip ks vs) k = d k"
    by (simp add: getitems_eq_Inr map_of_zip_lookups)
qed

lemma select_Inr:
  "getitems (map_of fr) names = Inr vs \<Longrightarrow> select fr names = Inr (zip names vs)"
  by (simp add: select_def)

lemma row_values_zip: "length vs = length ks \<Longrightarrow> row_values (zip ks vs) = vs"
  by (simp add: row_values_def)

lemma list_of_set_Nil [simp]: "list_of_set L [] = []"
  by (simp add: list_of_set_def)

lemma init_density:
  assumes "CausalEffect_init L X cs es adm vt_arg expectation = Inr e"
  shows "if adm = [] then density e = None
         else \<exists>d dts. columns X adm = Inr d \<and> getitems (map_of (variable_types e)) adm = Inr dts \<and>
                density e = Some \<lparr>kde_data = d, kde_var_type = dts,
                                   kde_bw_arg = init_bw (variable_types e)\<rparr>"
  using assms
  by (auto simp: CausalEffect_init_def Let_def ebind_eq_Inr new_KDEMultivariate_def
      split: option.splits if_splits prod.splits)

lemma init_expectation:
  assumes "CausalEffect_init L X cs es adm vt_arg expectation = Inr e"
  shows "if expectation
         then conditional_expectation e =
                Some \<lparr>reg_endog = ckde_endog (conditional_density e),
                       reg_exog = ckde_exog (conditional_density e),
                       reg_var_type = ckde_indep_type (conditional_density e),
                       reg_bw_arg = cv_ls\<rparr>
         else conditional_expectation e = None"
  using assms
  by (auto simp: CausalEffect_init_def Let_def ebind_eq_Inr new_KernelReg_def
      new_KDEMultivariateConditional_def
      split: option.splits if_splits prod.splits)

lemma select_query:
  assumes "getitems (map_of x) ks = Inr vs" and "set names \<subseteq> set ks"
    and "getitems (map_of x) names = Inr ws"
  shows "select (zip ks vs) names = Inr (zip names ws)"
proof -
  have "getitems (map_of (zip ks vs)) names = Inr ws"
    using getitems_zip_sub [OF assms(1,2)] assms(3) by simp
  then show ?thesis by (simp add: select_def)
qed

lemma map_of_DataFrame: "map_of (DataFrame L kvs) = map_of (rev kvs)"
proof (rule ext)
  fix k
  show "map_of (DataFrame L kvs) k = map_of (rev kvs) k"
  proof (cases "k \<in> fst ` set kvs")
    case True
    then have "map_of (rev kvs) k \<noteq> None"
      by (simp add: map_of_eq_None_iff)
    with True show ?thesis
      by (auto simp: DataFrame_def map_of_map_restrict restrict_map_def)
  next
    case False
    then have "map_of (rev kvs) k = None"
      by (simp add: map_of_eq_None_iff)
    with False show ?thesis
      by (auto simp: DataFrame_def map_of_map_restrict restrict_map_def)
  qed
qed

lemma map_of_rev_distinct: "distinct (map fst kvs) \<Longrightarrow> map_of (rev kvs) = map_of kvs"
  by (subst map_of_inject_set) (simp_all add: rev_map [symmetric])

lemma map_of_DataFrame_zip:
  assumes "distinct ks"
  shows "map_of (DataFrame L (zip ks vs)) = map_of (zip ks vs)"
proof -
  have "distinct (map fst (zip ks vs))"
    using assms by (simp add: map_fst_zip_take)
  then show ?thesis by (simp add: map_of_DataFrame map_of_rev_distinct)
qed

lemma pdf_loop_foldl:
  "(\<And>pt. pt \<in> set pts \<Longrightarrow> pdf_term L e x pt = Inr (g pt)) \<Longrightarrow>
     pdf_loop L e x pts acc = Inr (foldl (+) acc (map g pts))"
  by (induction pts arbitrary: acc) simp_all

lemma support_loop_Inr:
  "support_loop L vt ds vb vars acc = Inr s \<Longrightarrow>
     (\<forall>v \<in> set vars. \<exists>t d. vt v = Some t \<and> ds v = Some d \<and>
        (if t = Continuous
         then \<exists>b. vb v = Some b \<and>
                s v = Some (fst d - py_float L 10 * b, snd d + py_float L 10 * b)
         else s v = Some d))
     \<and> (\<forall>v. v \<notin> set vars \<longrightarrow> s v = acc v)"
proof (induction vars arbitrary: acc)
  case Nil
  then show ?case by simp
next
  case (Cons u vars)
  from Cons.prems obtain t d where t: "vt u = Some t" and d: "ds u = Some d"
    by (auto simp: ebind_eq_Inr getitem_eq_Inr split: if_splits)
  show ?case
  proof (cases "t = Continuous")
    case True
    with Cons.prems t d obtain b where b: "vb u = Some b"
      and rec: "support_loop L vt ds vb vars
                  (acc(u \<mapsto> (fst d - py_float L 10 * b, snd d + py_float L 10 * b))) = Inr s"
      by (auto simp: ebind_eq_Inr getitem_eq_Inr)
    from Cons.IH [OF rec] have
      inner: "\<forall>v \<in> set vars. \<exists>t d. vt v = Some t \<and> ds v = Some d \<and>
        (if t = Continuous
         then \<exists>b. vb v = Some b \<and>
                s v = Some (fst d - py_float L 10 * b, snd d + py_float L 10 * b)
         else s v = Some d)"
      and outer: "\<forall>v. v \<notin> set vars \<longrightarrow>
        s v = (acc(u \<mapsto> (fst d - py_float L 10 * b, snd d + py_float L 10 * b))) v"
      by blast+
    have here: "s u = Some (fst d - py_float L 10 * b, snd d + py_float L 10 * b)"
    proof (cases "u \<in> set vars")
      case True
      with inner t d b \<open>t = Continuous\<close> show ?thesis by fastforce
    next
      case False
      with outer show ?thesis by simp
    qed
    from inner outer here t d b True show ?thesis by (cases d) auto
  next
    case False
    with Cons.prems t d have rec: "support_loop L vt ds vb vars (acc(u \<mapsto> d)) = Inr s"
      by (auto simp: ebind_eq_Inr getitem_eq_Inr)
    from Cons.IH [OF rec] have
      inner: "\<forall>v \<in> set vars. \<exists>t d. vt v = Some t \<and> ds v = Some d \<and>
        (if t = Continuous
         then \<exists>b. vb v = Some b \<and>
                s v = Some (fst d - py_float L 10 * b, snd d + py_float L 10 * b)
         else s v = Some d)"
      and outer: "\<forall>v. v \<notin> set vars \<longrightarrow> s v = (acc(u \<mapsto> d)) v"
      by blast+
    have here: "s u = Some d"
    proof (cases "u \<in> set vars")
      case True
      with inner t d \<open>t \<noteq> Continuous\<close> show ?thesis by fastforce
    next
      case False
      with outer show ?thesis by simp
    qed
    from inner outer here t d False show ?thesis by (cases d) auto
  qed
qed

section \<open>The adjustment evaluator without confounders\<close>

text \<open>
  C2. For an estimator constructed with an empty admissible set, \<open>pdf(x)\<close> is the
  conditional density evaluated once at the query's causes and effects, and, when the
  expectation model was requested, \<open>expected_value(x)\<close> is the regression evaluated once
  at the query's causes. Neither result depends on the quadrature routine \<open>q\<close>, and
  neither is a sum: no summation and no integration takes place. The labels of the causes
  and effects are distinct and the query has a value for each of them.
\<close>

theorem empty_admissible_set_is_direct:
  assumes init: "CausalEffect_init L X cs es [] vt_arg expectation = Inr e"
    and labels: "distinct (cs @ es)"
    and qc: "getitems (map_of x) cs = Inr vc"
    and qe: "getitems (map_of x) es = Inr ve"
  shows "pdf (L\<lparr>nquad := q\<rparr>) e x = Inr (ckde_pdf L (conditional_density e) vc ve) \<and>
         (expectation \<longrightarrow>
            (\<exists>reg. conditional_expectation e = Some reg \<and>
                   expected_value (L\<lparr>nquad := q\<rparr>) e x = Inr (reg_fit L reg vc)))"
proof -
  from init_Inr [OF init] have f: "causes e = cs" "effects e = es"
    "discrete_Z e = []" "continuous_Z e = []" by auto
  define xq where "xq = zip (cs @ es) (vc @ ve)"
  define xc where "xc = zip cs vc"
  have all: "getitems (map_of x) (cs @ es) = Inr (vc @ ve)"
    using qc qe by (rule getitems_append)
  have lc: "length vc = length cs" and le: "length ve = length es"
    using qc qe by (simp_all add: getitems_length)
  have s0: "select x (cs @ es) = Inr xq"
    unfolding xq_def by (rule select_Inr [OF all])
  have s1: "select xq cs = Inr (zip cs vc)"
    unfolding xq_def by (rule select_query [OF all _ qc]) simp
  have s2: "select xq es = Inr (zip es ve)"
    unfolding xq_def by (rule select_query [OF all _ qe]) simp
  have r1: "row_values (zip cs vc) = vc" and r2: "row_values (zip es ve) = ve"
    by (simp_all add: row_values_zip lc le)
  have density_part:
    "pdf (L\<lparr>nquad := q\<rparr>) e x = Inr (ckde_pdf L (conditional_density e) vc ve)"
    unfolding pdf_def f by (simp add: s0 s1 s2 r1 r2)
  have t0: "select x cs = Inr xc"
    unfolding xc_def by (rule select_Inr [OF qc])
  have t1: "select xc cs = Inr (zip cs vc)"
    unfolding xc_def by (rule select_query [OF qc _ qc]) simp
  have expectation_part:
    "\<exists>reg. conditional_expectation e = Some reg \<and>
           expected_value (L\<lparr>nquad := q\<rparr>) e x = Inr (reg_fit L reg vc)"
    if expectation
  proof -
    from init_expectation [OF init] that obtain reg
      where reg: "conditional_expectation e = Some reg" by auto
    have "expected_value (L\<lparr>nquad := q\<rparr>) e x = Inr (reg_fit L reg vc)"
      unfolding expected_value_def f by (simp add: t0 t1 r1 reg getattr_def)
    with reg show ?thesis by blast
  qed
  from density_part expectation_part show ?thesis by blast
qed

theorem empty_admissible_set_is_direct_witness:
  "\<exists>e. CausalEffect_init toy_libs toy_X [''c''] [''d''] [] (Some toy_types) True = Inr e \<and>
       pdf (toy_libs\<lparr>nquad := (\<lambda>f box. Inl ValueError)\<rparr>) e [(''c'', 2), (''d'', 5)] = Inr 19 \<and>
       expected_value (toy_libs\<lparr>nquad := (\<lambda>f box. Inl ValueError)\<rparr>) e
         [(''c'', 2), (''d'', 5)] = Inr 7"
proof -
  have "\<exists>e. CausalEffect_init toy_libs toy_X [''c''] [''d''] [] (Some toy_types) True = Inr e"
    by (simp add: toy_simps)
  then obtain e
    where e: "CausalEffect_init toy_libs toy_X [''c''] [''d''] [] (Some toy_types) True = Inr e" ..
  have labels: "distinct ([''c''] @ [''d''])" by simp
  have qc: "getitems (map_of [(''c'', 2), (''d'', 5 :: int)]) [''c''] = Inr [2]"
    by (simp add: getitem_def)
  have qe: "getitems (map_of [(''c'', 2), (''d'', 5 :: int)]) [''d''] = Inr [5]"
    by (simp add: getitem_def)
  from empty_admissible_set_is_direct [OF e labels qc qe, of "\<lambda>f box. Inl ValueError"]
  have "pdf (toy_libs\<lparr>nquad := (\<lambda>f box. Inl ValueError)\<rparr>) e [(''c'', 2), (''d'', 5)] = Inr 19 \<and>
        expected_value (toy_libs\<lparr>nquad := (\<lambda>f box. Inl ValueError)\<rparr>) e
          [(''c'', 2), (''d'', 5)] = Inr 7"
    by (auto simp: toy_libs_def)
  with e show ?thesis by blast
qed

lemma map_of_zip_map_snd:
  "map_of (zip ks (map f vs)) k = map_option f (map_of (zip ks vs) k)"
proof -
  have "zip ks (map f vs) = map (\<lambda>(k, v). (k, f v)) (zip ks vs)"
    by (simp add: zip_map2 case_prod_unfold)
  then show ?thesis by (simp add: map_of_map)
qed

lemma set_map_fst_zip: "length vs = length ks \<Longrightarrow> set (map fst (zip ks vs)) = set ks"
  by simp

lemma join_disjoint:
  "set (map fst a) \<inter> set (map fst b) = {} \<Longrightarrow> join a b = Inr (a @ b)"
  by (simp add: join_def)

lemma getitems_dom:
  assumes "getitems d ks = Inr vs" and "k \<in> set ks"
  shows "\<exists>v. d k = Some v"
proof -
  from assms(1) have "map d ks = map Some vs" by (simp add: getitems_eq_Inr)
  moreover from assms(2) have "d k \<in> set (map d ks)" by simp
  ultimately have "d k \<in> set (map Some vs)" by simp
  then show ?thesis by auto
qed

lemma getitems_map_add_right:
  assumes "getitems n ks = Inr vs"
  shows "getitems (m ++ n) ks = Inr vs"
proof -
  have "getitems (m ++ n) ks = getitems n ks"
  proof (rule getitems_cong)
    fix k assume "k \<in> set ks"
    from getitems_dom [OF assms this] obtain v where "n k = Some v" ..
    then show "(m ++ n) k = n k" by (simp add: map_add_def)
  qed
  with assms show ?thesis by simp
qed

lemma getitems_map_add_left:
  assumes "\<And>k. k \<in> set ks \<Longrightarrow> n k = None"
  shows "getitems (m ++ n) ks = getitems m ks"
  by (rule getitems_cong) (simp add: assms map_add_def)

lemma getitems_total:
  "(\<And>k. k \<in> set ks \<Longrightarrow> d k \<noteq> None) \<Longrightarrow> getitems d ks = Inr (map (\<lambda>k. the (d k)) ks)"
proof (induction ks)
  case Nil
  show ?case by simp
next
  case (Cons a ks)
  from Cons.prems [of a] obtain y where "d a = Some y" by auto
  moreover have "getitems d ks = Inr (map (\<lambda>k. the (d k)) ks)"
    by (rule Cons.IH) (simp add: Cons.prems)
  ultimately show ?case by (simp add: getitem_def)
qed

text \<open>One iteration of the loop of \<open>pdf\<close> when every confounder is discrete.\<close>

lemma pdf_term_discrete:
  fixes L :: "'n::times libs"
  assumes cz: "continuous_Z e = []"
    and dz: "distinct (discrete_Z e)"
    and sub: "set adm \<subseteq> set (discrete_Z e)"
    and len: "length pt = length (discrete_Z e)"
    and fields: "effects e = es" "conditional_density_vars e = cs @ adm" "admissable_set e = adm"
    and labels: "distinct (cs @ es @ adm)"
    and cols: "fst ` set xq = set (cs @ es)"
    and qc: "getitems (map_of xq) cs = Inr vc"
    and qe: "getitems (map_of xq) es = Inr ve"
    and dens: "density e = Some dens"
    and zrow: "zrow = map (\<lambda>a. py_float L (the (map_of (zip (discrete_Z e) pt) a))) adm"
  shows "pdf_term L e xq pt =
           Inr (ckde_pdf L (conditional_density e) (vc @ zrow) ve * kde_pdf L dens zrow)"
proof -
  define zd where "zd = DataFrame L (zip (discrete_Z e) (map (py_float L) pt))"
  define z where "z = zip adm zrow"
  have zd_map: "map_of zd k = map_option (py_float L) (map_of (zip (discrete_Z e) pt) k)" for k
    unfolding zd_def by (simp add: map_of_DataFrame_zip [OF dz] map_of_zip_map_snd)
  have "getitems (map_of zd) adm = Inr (map (\<lambda>k. the (map_of zd k)) adm)"
  proof (rule getitems_total)
    fix k assume "k \<in> set adm"
    with sub have "k \<in> set (discrete_Z e)" by auto
    with len have "map_of (zip (discrete_Z e) pt) k \<noteq> None"
      using map_of_zip_is_Some [of "discrete_Z e" pt k] by auto
    then show "map_of zd k \<noteq> None" by (simp add: zd_map)
  qed
  moreover have "map (\<lambda>k. the (map_of zd k)) adm = zrow"
  proof -
    have "the (map_of zd k) = py_float L (the (map_of (zip (discrete_Z e) pt) k))"
      if "k \<in> set adm" for k
    proof -
      from that sub have "k \<in> set (discrete_Z e)" by auto
      with len have "map_of (zip (discrete_Z e) pt) k \<noteq> None"
        using map_of_zip_is_Some [of "discrete_Z e" pt k] by auto
      then show ?thesis by (auto simp: zd_map)
    qed
    then show ?thesis by (simp add: zrow)
  qed
  ultimately have gz: "getitems (map_of zd) adm = Inr zrow" by simp
  have lz: "length zrow = length adm" by (simp add: zrow)
  have sel_z: "select zd adm = Inr z"
    unfolding z_def by (rule select_Inr [OF gz])
  have "map fst z = adm"
    unfolding z_def using lz by simp
  then have "set (map fst z) = set adm" by simp
  then have z_cols: "fst ` set z = set adm" by (simp only: set_map)
  have "fst ` set xq \<inter> fst ` set z = {}"
    unfolding cols z_cols using labels by auto
  then have "set (map fst xq) \<inter> set (map fst z) = {}" by simp
  then have jn: "join xq z = Inr (xq @ z)" by (rule join_disjoint)
  have gz': "getitems (map_of z) adm = Inr zrow"
    unfolding z_def using getitems_zip_sub [OF gz subset_refl] gz by simp
  have j1: "getitems (map_of (xq @ z)) cs = Inr vc"
    unfolding map_of_append by (rule getitems_map_add_right [OF qc])
  have "getitems (map_of (xq @ z)) adm = getitems (map_of z) adm"
    unfolding map_of_append
  proof (rule getitems_map_add_left)
    fix k assume "k \<in> set adm"
    with labels have "k \<notin> set (cs @ es)" by auto
    then have "k \<notin> fst ` set xq" using cols by simp
    then show "map_of xq k = None" by (simp add: map_of_eq_None_iff)
  qed
  with gz' have j2: "getitems (map_of (xq @ z)) adm = Inr zrow" by simp
  have exog: "select (xq @ z) (cs @ adm) = Inr (zip (cs @ adm) (vc @ zrow))"
    by (rule select_Inr [OF getitems_append [OF j1 j2]])
  have endog: "select xq es = Inr (zip es ve)"
    by (rule select_Inr [OF qe])
  have lc: "length vc = length cs" and le: "length ve = length es"
    using qc qe by (simp_all add: getitems_length)
  have r1: "row_values (zip (cs @ adm) (vc @ zrow)) = vc @ zrow"
    by (rule row_values_zip) (simp add: lc lz)
  have r2: "row_values (zip es ve) = ve"
    by (rule row_values_zip) (simp add: le)
  have r3: "row_values z = zrow"
    unfolding z_def by (rule row_values_zip) (simp add: lz)
  have "pdf_term L e xq pt =
          ebind (select zd adm) (\<lambda>z.
          ebind (join xq z) (\<lambda>j.
          ebind (select j (cs @ adm)) (\<lambda>exog_predictors.
          ebind (select xq es) (\<lambda>endog.
          ebind (getattr (density e)) (\<lambda>dens.
          Inr (ckde_pdf L (conditional_density e) (row_values exog_predictors) (row_values endog)
                 * kde_pdf L dens (row_values z)))))))"
    unfolding pdf_term_def zd_def Let_def fields by (simp only: cz if_False not_True_eq_False simp_thms)
  also have "\<dots> = Inr (ckde_pdf L (conditional_density e) (vc @ zrow) ve * kde_pdf L dens zrow)"
    by (simp only: sel_z jn exog endog ebind_Inr r1 r2 r3 dens getattr_def option.case)
  finally show ?thesis .
qed

lemma list_of_set_facts:
  "set (list_of_set L xs) = set xs" "distinct (list_of_set L xs)"
  by (simp_all add: list_of_set_def)

lemma get_support_dom:
  assumes "get_support L X vt es cdv cond = Inr s" and "v \<in> set (es @ cdv)"
  shows "s v \<noteq> None"
proof -
  from assms(1) have "support_loop L (map_of vt) (data_support L X)
       (variable_bandwidths (es @ cdv) (ckde_bw L cond)) (es @ cdv) Map.empty = Inr s"
    by (simp add: get_support_def)
  from support_loop_Inr [OF this] assms(2) show ?thesis
    by (fastforce split: if_splits)
qed

lemma discrete_only_confounders:
  assumes init: "CausalEffect_init L X cs es adm (Some vt) expectation = Inr e"
    and discrete: "\<And>v. v \<in> set adm \<Longrightarrow> (v, Continuous) \<notin> set vt"
  shows "set (discrete_Z e) = set adm" and "distinct (discrete_Z e)" and "continuous_Z e = []"
proof -
  from init_Inr [OF init] obtain indep where
    types: "getitems (map_of vt) (cs @ adm) = Inr indep"
    and dz: "discrete_Z e = list_of_set L (filter (\<lambda>v. v \<in> set adm)
              (map fst (filter (\<lambda>(v, t). t = Ordered \<or> t = Unordered) vt)))"
    and cz: "continuous_Z e = list_of_set L (filter (\<lambda>v. v \<in> set adm)
              (map fst (filter (\<lambda>(v, t). t = Continuous) vt)))"
    by auto
  have "v \<in> fst ` {p \<in> set vt. snd p = Ordered \<or> snd p = Unordered}" if "v \<in> set adm" for v
  proof -
    from that have "v \<in> set (cs @ adm)" by simp
    from getitems_dom [OF types this] obtain t where t: "map_of vt v = Some t" ..
    then have mem: "(v, t) \<in> set vt" by (rule map_of_SomeD)
    with discrete [OF that] have "t \<noteq> Continuous" by auto
    then have "t = Ordered \<or> t = Unordered" by (cases t) simp_all
    with mem show ?thesis by force
  qed
  then show "set (discrete_Z e) = set adm"
    unfolding dz list_of_set_facts by (auto simp: case_prod_unfold)
  show "distinct (discrete_Z e)"
    unfolding dz by (rule list_of_set_facts)
  have "filter (\<lambda>v. v \<in> set adm) (map fst (filter (\<lambda>(v, t). t = Continuous) vt)) = []"
    using discrete by (auto simp: filter_empty_conv)
  then show "continuous_Z e = []"
    unfolding cz by simp
qed

lemma discrete_variable_ranges_total:
  assumes "\<And>v. v \<in> set (discrete_Z e) \<Longrightarrow> support e v \<noteq> None"
  shows "discrete_variable_ranges L e = Inr (support_ranges L e)"
proof -
  have "getitems (support e) (discrete_Z e) = Inr (map (\<lambda>k. the (support e k)) (discrete_Z e))"
    by (rule getitems_total) (rule assms)
  moreover have
    "map (\<lambda>s. [py_int L (fst s) .. py_int L (snd s)]) (map (\<lambda>k. the (support e k)) (discrete_Z e))
       = support_ranges L e"
    unfolding support_ranges_def map_map
  proof (rule map_cong [OF refl])
    fix v assume "v \<in> set (discrete_Z e)"
    from assms [OF this] obtain s where "support e v = Some s" by auto
    then show "((\<lambda>s. [py_int L (fst s) .. py_int L (snd s)]) \<circ> (\<lambda>k. the (support e k))) v =
                 (case support e v of None \<Rightarrow> [] | Some s \<Rightarrow> [py_int L (fst s) .. py_int L (snd s)])"
      by simp
  qed
  ultimately show ?thesis by (simp add: discrete_variable_ranges_def)
qed

lemma toy_effect_init:
  "CausalEffect_init toy_libs toy_X [''c''] [''d''] [''z''] (Some toy_types) True = Inr toy_effect"
  by (simp add: toy_simps toy_effect_def)

section \<open>The adjustment evaluator with discrete confounders only\<close>

text \<open>
  C1. For an estimator constructed with a non-empty admissible set all of whose variables
  are discrete, \<open>pdf(x)\<close> is the sum, accumulated from \<open>0.\<close> in the order of
  \<open>itertools.product\<close>, over every point of the Cartesian product of the inclusive integer
  ranges \<open>int(low) .. int(high)\<close> that the support cube records for the discrete
  confounders, of the conditional density at (causes of \<open>x\<close> followed by the point,
  effects of \<open>x\<close>) times the marginal density at the point. The result does not depend on
  the quadrature routine \<open>q\<close>: no quadrature takes place. The labels of causes, effects and
  admissible set are pairwise distinct and the query has a value for every cause and effect.
\<close>

theorem discrete_only_pdf_is_sum:
  fixes L :: "'n::{zero,plus,minus,times} libs"
  assumes init: "CausalEffect_init L X cs es adm (Some vt) expectation = Inr e"
    and nonempty: "adm \<noteq> []"
    and discrete: "\<And>v. v \<in> set adm \<Longrightarrow> (v, Continuous) \<notin> set vt"
    and labels: "distinct (cs @ es @ adm)"
    and qc: "getitems (map_of x) cs = Inr vc"
    and qe: "getitems (map_of x) es = Inr ve"
  shows "\<exists>dens. density e = Some dens \<and>
           set (discrete_Z e) = set adm \<and>
           (\<forall>v \<in> set adm. support e v \<noteq> None) \<and>
           pdf (L\<lparr>nquad := q\<rparr>) e x =
             Inr (foldl (+) 0
               (map (\<lambda>pt. ckde_pdf L (conditional_density e) (vc @ point_row L e pt) ve
                            * kde_pdf L dens (point_row L e pt))
                  (product_lists (support_ranges L e))))"
proof -
  let ?L = "L\<lparr>nquad := q\<rparr>"
  from init_Inr [OF init] have f: "causes e = cs" "effects e = es" "admissable_set e = adm"
    "conditional_density_vars e = cs @ adm"
    and sup: "get_support L X vt es (cs @ adm) (conditional_density e) = Inr (support e)"
    by auto
  from init_density [OF init] nonempty obtain dens where dens: "density e = Some dens"
    by auto
  note parts = discrete_only_confounders [OF init discrete]
  have dz_ne: "discrete_Z e \<noteq> []"
    using parts(1) nonempty by (metis set_empty)
  have sup_ok: "support e v \<noteq> None" if "v \<in> set adm" for v
    by (rule get_support_dom [OF sup]) (use that in simp)
  have ranges: "discrete_variable_ranges ?L e = Inr (support_ranges L e)"
  proof -
    have "discrete_variable_ranges ?L e = Inr (support_ranges ?L e)"
      by (rule discrete_variable_ranges_total) (simp add: parts(1) sup_ok)
    moreover have "support_ranges ?L e = support_ranges L e"
      unfolding support_ranges_def by (rule map_cong) (simp_all split: option.splits)
    ultimately show ?thesis by simp
  qed
  define xq where "xq = zip (cs @ es) (vc @ ve)"
  have all: "getitems (map_of x) (cs @ es) = Inr (vc @ ve)"
    using qc qe by (rule getitems_append)
  have lall: "length (vc @ ve) = length (cs @ es)"
    using all by (rule getitems_length)
  have s0: "select x (cs @ es) = Inr xq"
    unfolding xq_def by (rule select_Inr [OF all])
  have "map fst xq = cs @ es"
    unfolding xq_def using lall by (simp only: map_fst_zip)
  then have "set (map fst xq) = set (cs @ es)" by simp
  then have cols: "fst ` set xq = set (cs @ es)" by (simp only: set_map)
  have xc: "getitems (map_of xq) cs = Inr vc"
    unfolding xq_def using getitems_zip_sub [OF all, of cs] qc by simp
  have xe: "getitems (map_of xq) es = Inr ve"
    unfolding xq_def using getitems_zip_sub [OF all, of es] qe by simp
  let ?g = "\<lambda>pt. ckde_pdf L (conditional_density e) (vc @ point_row L e pt) ve
                  * kde_pdf L dens (point_row L e pt)"
  have each: "pdf_term ?L e xq pt = Inr (?g pt)"
    if "pt \<in> set (product_lists (support_ranges L e))" for pt
  proof -
    from that have "length pt = length (support_ranges L e)"
      by (rule in_set_product_lists_length)
    then have len: "length pt = length (discrete_Z e)"
      by (simp add: support_ranges_def)
    have "pdf_term ?L e xq pt =
            Inr (ckde_pdf ?L (conditional_density e) (vc @ point_row L e pt) ve
                   * kde_pdf ?L dens (point_row L e pt))"
    proof (rule pdf_term_discrete [where cs = cs and es = es and adm = adm])
      show "continuous_Z e = []" by (rule parts(3))
      show "distinct (discrete_Z e)" by (rule parts(2))
      show "set adm \<subseteq> set (discrete_Z e)" by (simp add: parts(1))
      show "length pt = length (discrete_Z e)" by (rule len)
      show "effects e = es" "conditional_density_vars e = cs @ adm" "admissable_set e = adm"
        by (rule f)+
      show "distinct (cs @ es @ adm)" by (rule labels)
      show "fst ` set xq = set (cs @ es)" by (rule cols)
      show "getitems (map_of xq) cs = Inr vc" by (rule xc)
      show "getitems (map_of xq) es = Inr ve" by (rule xe)
      show "density e = Some dens" by (rule dens)
      show "point_row L e pt =
              map (\<lambda>a. py_float ?L (the (map_of (zip (discrete_Z e) pt) a))) adm"
        by (simp add: point_row_def f)
    qed
    then show ?thesis by simp
  qed
  have "pdf_loop ?L e xq (product_lists (support_ranges L e)) 0 =
          Inr (foldl (+) 0 (map ?g (product_lists (support_ranges L e))))"
    by (rule pdf_loop_foldl) (rule each)
  then have "pdf ?L e x = Inr (foldl (+) 0 (map ?g (product_lists (support_ranges L e))))"
    unfolding pdf_def f by (simp only: s0 ebind_Inr dz_ne ranges if_True not_False_eq_True simp_thms)
  with dens parts(1) sup_ok show ?thesis by blast
qed

theorem discrete_only_pdf_is_sum_witness:
  "pdf (toy_libs\<lparr>nquad := (\<lambda>f box. Inl ValueError)\<rparr>) toy_effect [(''c'', 2), (''d'', 5)] =
     Inr (19 * 1 + 20 * 2)"
proof -
  have nonempty: "[''z''] \<noteq> []" by simp
  have discrete: "(v, Continuous) \<notin> set toy_types" if "v \<in> set [''z'']" for v
    using that by (simp add: toy_types_def)
  have labels: "distinct ([''c''] @ [''d''] @ [''z''])" by simp
  have qc: "getitems (map_of [(''c'', 2), (''d'', 5 :: int)]) [''c''] = Inr [2]"
    by (simp add: getitem_def)
  have qe: "getitems (map_of [(''c'', 2), (''d'', 5 :: int)]) [''d''] = Inr [5]"
    by (simp add: getitem_def)
  have ranges: "product_lists (support_ranges toy_libs toy_effect) = [[0], [1]]"
    by (simp add: support_ranges_def toy_effect_def toy_libs_def upto_rec1)
  have rows: "point_row toy_libs toy_effect [i] = [i]" for i
    by (simp add: point_row_def toy_effect_def toy_libs_def)
  have "\<exists>dens. density toy_effect = Some dens \<and>
           set (discrete_Z toy_effect) = set [''z''] \<and>
           (\<forall>v \<in> set [''z'']. support toy_effect v \<noteq> None) \<and>
           pdf (toy_libs\<lparr>nquad := (\<lambda>f box. Inl ValueError)\<rparr>) toy_effect
               [(''c'', 2), (''d'', 5)] =
             Inr (foldl (+) 0
               (map (\<lambda>pt. ckde_pdf toy_libs (conditional_density toy_effect)
                            ([2] @ point_row toy_libs toy_effect pt) [5]
                          * kde_pdf toy_libs dens (point_row toy_libs toy_effect pt))
                  (product_lists (support_ranges toy_libs toy_effect))))"
    by (rule discrete_only_pdf_is_sum [OF toy_effect_init nonempty _ labels qc qe])
      (rule discrete)
  then
  obtain dens where
    p: "pdf (toy_libs\<lparr>nquad := (\<lambda>f box. Inl ValueError)\<rparr>) toy_effect [(''c'', 2), (''d'', 5)] =
          Inr (foldl (+) 0
            (map (\<lambda>pt. ckde_pdf toy_libs (conditional_density toy_effect)
                         ([2] @ point_row toy_libs toy_effect pt) [5]
                       * kde_pdf toy_libs dens (point_row toy_libs toy_effect pt))
               (product_lists (support_ranges toy_libs toy_effect))))"
    by (elim exE conjE)
  show ?thesis
    unfolding p ranges list.map foldl.simps rows by (simp add: toy_libs_def)
qed

lemmas query_simps = pdf_def expected_value_def select_def discrete_variable_ranges_def
  pdf_term_def expected_value_term_def DataFrame_def join_def integration_function_def
  expectation_integration_function_def row_values_def upto_rec1

lemma map_of_zip_nth_Some:
  "distinct xs \<Longrightarrow> i < length xs \<Longrightarrow> map_of (zip xs ys) (xs ! i) = Some b \<Longrightarrow>
     i < length ys \<and> ys ! i = b"
proof (induction xs arbitrary: i ys)
  case Nil
  then show ?case by simp
next
  case (Cons x xs)
  show ?case
  proof (cases ys)
    case Nil
    with Cons.prems show ?thesis by simp
  next
    case ys: (Cons y ys')
    show ?thesis
    proof (cases i)
      case 0
      with Cons.prems ys show ?thesis by simp
    next
      case (Suc j)
      with Cons.prems have j: "j < length xs" and ne: "xs ! j \<noteq> x" by auto
      with Cons.prems Suc ys have "map_of (zip xs ys') (xs ! j) = Some b" by simp
      with Cons.IH [of j ys'] Cons.prems j have "j < length ys' \<and> ys' ! j = b" by simp
      with Suc ys show ?thesis by simp
    qed
  qed
qed

section \<open>The support cube\<close>

text \<open>
  C3. For the variable \<open>v\<close> at position \<open>i\<close> of \<open>effects + causes + admissable_set\<close>
  (labels pairwise distinct), the support a successful construction records is: if \<open>v\<close> is
  continuous, (column minimum \<open>- 10. * bw\<close>, column maximum \<open>+ 10. * bw\<close>) where \<open>bw\<close> is
  entry \<open>i\<close> of the bandwidth vector of the fitted conditional density; otherwise the
  column's (minimum, maximum) unchanged.
\<close>

theorem support_of_constructed:
  fixes L :: "'n::{plus,minus,times} libs"
  assumes init: "CausalEffect_init L X cs es adm (Some vt) expectation = Inr e"
    and labels: "distinct (es @ cs @ adm)"
    and i: "i < length (es @ cs @ adm)"
    and v: "(es @ cs @ adm) ! i = v"
  shows "\<exists>t col. map_of vt v = Some t \<and> map_of X v = Some col \<and>
           (if t = Continuous
            then i < length (ckde_bw L (conditional_density e)) \<and>
                 support e v =
                   Some (col_min L col - py_float L 10 * ckde_bw L (conditional_density e) ! i,
                         col_max L col + py_float L 10 * ckde_bw L (conditional_density e) ! i)
            else support e v = Some (col_min L col, col_max L col))"
proof -
  let ?vars = "es @ cs @ adm"
  let ?bws = "ckde_bw L (conditional_density e)"
  from init_Inr [OF init]
  have "get_support L X vt es (cs @ adm) (conditional_density e) = Inr (support e)" by auto
  then have loop: "support_loop L (map_of vt) (data_support L X)
       (variable_bandwidths ?vars ?bws) ?vars Map.empty = Inr (support e)"
    by (simp add: get_support_def)
  from i v have "v \<in> set ?vars" by (metis nth_mem)
  with support_loop_Inr [OF loop] obtain t d where
    t: "map_of vt v = Some t" and d: "data_support L X v = Some d" and
    entry: "if t = Continuous
         then \<exists>b. variable_bandwidths ?vars ?bws v = Some b \<and>
                support e v = Some (fst d - py_float L 10 * b, snd d + py_float L 10 * b)
         else support e v = Some d"
    by blast
  from d obtain col where col: "map_of X v = Some col"
    and d_eq: "d = (col_min L col, col_max L col)"
    by (auto simp: data_support_def)
  have bw: "i < length ?bws \<and> ?bws ! i = b" if "variable_bandwidths ?vars ?bws v = Some b" for b
  proof -
    have "distinct (map fst (zip ?vars ?bws))"
      using labels by (simp only: map_fst_zip_take distinct_take)
    then have "map_of (rev (zip ?vars ?bws)) = map_of (zip ?vars ?bws)"
      by (rule map_of_rev_distinct)
    with that have "map_of (zip ?vars ?bws) (?vars ! i) = Some b"
      by (simp only: variable_bandwidths_def v)
    with labels i show ?thesis by (rule map_of_zip_nth_Some)
  qed
  show ?thesis
  proof (cases "t = Continuous")
    case True
    with entry obtain b where b: "variable_bandwidths ?vars ?bws v = Some b"
      and s: "support e v = Some (fst d - py_float L 10 * b, snd d + py_float L 10 * b)"
      by auto
    from bw [OF b] s d_eq True t col show ?thesis by auto
  next
    case False
    with entry d_eq t col show ?thesis by auto
  qed
qed

theorem support_of_constructed_witness:
  "\<exists>e. CausalEffect_init toy_libs toy_X [''c''] [''d''] [''a''] (Some toy_types) False = Inr e \<and>
       support e ''a'' = Some (3 - 10 * 1, 9 + 10 * 1) \<and>
       support e ''c'' = Some (1, 2)"
proof -
  have "\<exists>e. CausalEffect_init toy_libs toy_X [''c''] [''d''] [''a''] (Some toy_types) False = Inr e \<and>
            ckde_bw toy_libs (conditional_density e) = [1, 1, 1]"
    by (simp add: toy_simps)
  then obtain e
    where e: "CausalEffect_init toy_libs toy_X [''c''] [''d''] [''a''] (Some toy_types) False = Inr e"
      and bws: "ckde_bw toy_libs (conditional_density e) = [1, 1, 1]"
    by blast
  have labels: "distinct ([''d''] @ [''c''] @ [''a''])" by simp
  have i2: "2 < length ([''d''] @ [''c''] @ [''a''])" by simp
  have v2: "([''d''] @ [''c''] @ [''a'']) ! 2 = ''a''" by simp
  have i1: "1 < length ([''d''] @ [''c''] @ [''a''])" by simp
  have v1: "([''d''] @ [''c''] @ [''a'']) ! 1 = ''c''" by simp
  from support_of_constructed [OF e labels i2 v2, unfolded bws]
  have a: "support e ''a'' = Some (3 - 10 * 1, 9 + 10 * 1)"
    by (auto simp: toy_types_def toy_X_def toy_libs_def)
  from support_of_constructed [OF e labels i1 v1, unfolded bws]
  have c: "support e ''c'' = Some (1, 2)"
    by (auto simp: toy_types_def toy_X_def toy_libs_def)
  from e a c show ?thesis by blast
qed

section \<open>What a query reads of its argument\<close>

text \<open>
  C10. \<open>pdf(x)\<close> depends only on the causes and effects columns of \<open>x\<close>, and
  \<open>expected_value(x)\<close> only on the causes columns: two query rows that agree on those
  columns (a column missing from both counts as agreeing) give the same result, error or
  value, for every estimator.
\<close>

theorem queries_read_only_their_columns:
  fixes L :: "'n::{zero,plus,times} libs"
  shows "((\<forall>k \<in> set (causes e @ effects e). map_of x k = map_of x' k) \<longrightarrow>
            pdf L e x = pdf L e x') \<and>
         ((\<forall>k \<in> set (causes e). map_of x k = map_of x' k) \<longrightarrow>
            expected_value L e x = expected_value L e x')"
proof (intro conjI impI)
  assume "\<forall>k \<in> set (causes e @ effects e). map_of x k = map_of x' k"
  then have "getitems (map_of x) (causes e @ effects e) = getitems (map_of x') (causes e @ effects e)"
    by (intro getitems_cong) blast
  then have "select x (causes e @ effects e) = select x' (causes e @ effects e)"
    by (simp only: select_def)
  then show "pdf L e x = pdf L e x'"
    by (simp only: pdf_def)
next
  assume "\<forall>k \<in> set (causes e). map_of x k = map_of x' k"
  then have "getitems (map_of x) (causes e) = getitems (map_of x') (causes e)"
    by (intro getitems_cong) blast
  then have "select x (causes e) = select x' (causes e)"
    by (simp only: select_def)
  then show "expected_value L e x = expected_value L e x'"
    by (simp only: expected_value_def)
qed

theorem queries_read_only_their_columns_witness:
  "pdf toy_libs toy_effect [(''c'', 2), (''d'', 5), (''q'', 9)] =
     pdf toy_libs toy_effect [(''d'', 5), (''c'', 2)] \<and>
   expected_value toy_libs toy_effect [(''c'', 2), (''d'', 5), (''q'', 9)] =
     expected_value toy_libs toy_effect [(''c'', 2), (''d'', 8)]"
proof -
  have p: "\<forall>k \<in> set (causes toy_effect @ effects toy_effect).
             map_of [(''c'', 2), (''d'', 5), (''q'', 9 :: int)] k = map_of [(''d'', 5), (''c'', 2)] k"
    by (simp add: toy_effect_def)
  have q: "\<forall>k \<in> set (causes toy_effect).
             map_of [(''c'', 2), (''d'', 5), (''q'', 9 :: int)] k = map_of [(''c'', 2), (''d'', 8)] k"
    by (simp add: toy_effect_def)
  from queries_read_only_their_columns
    [of toy_effect "[(''c'', 2), (''d'', 5), (''q'', 9)]" "[(''d'', 5), (''c'', 2)]" toy_libs]
    p
  have a: "pdf toy_libs toy_effect [(''c'', 2), (''d'', 5), (''q'', 9)] =
             pdf toy_libs toy_effect [(''d'', 5), (''c'', 2)]"
    by blast
  from queries_read_only_their_columns
    [of toy_effect "[(''c'', 2), (''d'', 5), (''q'', 9)]" "[(''c'', 2), (''d'', 8)]" toy_libs]
    q
  have b: "expected_value toy_libs toy_effect [(''c'', 2), (''d'', 5), (''q'', 9)] =
             expected_value toy_libs toy_effect [(''c'', 2), (''d'', 8)]"
    by blast
  from a b show ?thesis ..
qed

section \<open>Nonnegativity of the density estimate\<close>

lemma nonneg_contractsD:
  fixes L :: "'n::{zero,plus,times,ord} libs"
  assumes "nonneg_contracts L"
  shows "0 \<le> kde_pdf L m q" and "0 \<le> ckde_pdf L m' a b"
    and "(\<And>p v. f p = Inr v \<Longrightarrow> 0 \<le> v) \<Longrightarrow> nquad L f box = Inr r \<Longrightarrow> 0 \<le> r"
    and "(0 :: 'n) \<le> 0"
    and "0 \<le> (c :: 'n) \<Longrightarrow> 0 \<le> d \<Longrightarrow> 0 \<le> c + d"
    and "0 \<le> (c :: 'n) \<Longrightarrow> 0 \<le> d \<Longrightarrow> 0 \<le> c * d"
proof -
  from assms have
    1: "\<forall>m q. 0 \<le> kde_pdf L m q" and
    2: "\<forall>m a b. 0 \<le> ckde_pdf L m a b" and
    3: "\<forall>f box r. (\<forall>p v. f p = Inr v \<longrightarrow> 0 \<le> v) \<longrightarrow> nquad L f box = Inr r \<longrightarrow> 0 \<le> r" and
    4: "(0 :: 'n) \<le> 0" and
    5: "\<forall>a b :: 'n. 0 \<le> a \<longrightarrow> 0 \<le> b \<longrightarrow> 0 \<le> a + b" and
    6: "\<forall>a b :: 'n. 0 \<le> a \<longrightarrow> 0 \<le> b \<longrightarrow> 0 \<le> a * b"
    unfolding nonneg_contracts_def by simp_all
  show "0 \<le> kde_pdf L m q" by (rule 1 [rule_format])
  show "0 \<le> ckde_pdf L m' a b" by (rule 2 [rule_format])
  show "0 \<le> r" if "\<And>p v. f p = Inr v \<Longrightarrow> 0 \<le> v" and "nquad L f box = Inr r"
  proof (rule 3 [rule_format, of f])
    show "0 \<le> v" if "f p = Inr v" for p v using that by (rule \<open>\<And>p v. f p = Inr v \<Longrightarrow> 0 \<le> v\<close>)
    show "nquad L f box = Inr r" by fact
  qed
  show "(0 :: 'n) \<le> 0" by (rule 4)
  show "0 \<le> c + d" if "0 \<le> c" "0 \<le> d" using that by (rule 5 [rule_format])
  show "0 \<le> c * d" if "0 \<le> c" "0 \<le> d" using that by (rule 6 [rule_format])
qed

lemma integration_function_nonneg:
  assumes c: "nonneg_contracts L" and "integration_function L e args = Inr v"
  shows "0 \<le> v"
  using assms(2) unfolding integration_function_def Let_def
  by (auto simp: ebind_eq_Inr intro!: nonneg_contractsD(6) [OF c] nonneg_contractsD(1,2) [OF c])

lemma pdf_term_nonneg:
  assumes c: "nonneg_contracts L" and res: "pdf_term L e x z_vals = Inr v"
  shows "0 \<le> v"
proof (cases "continuous_Z e = []")
  case True
  with res show ?thesis
    unfolding pdf_term_def Let_def
    by (auto simp: ebind_eq_Inr intro!: nonneg_contractsD(6) [OF c] nonneg_contractsD(1,2) [OF c])
next
  case False
  with res obtain box j where
    q: "nquad L (\<lambda>pt. integration_function L e (pt @ row_values j)) box = Inr v"
    unfolding pdf_term_def Let_def by (auto simp: ebind_eq_Inr)
  show ?thesis
  proof (rule nonneg_contractsD(3) [OF c _ q])
    fix p w assume "integration_function L e (p @ row_values j) = Inr w"
    with c show "0 \<le> w" by (rule integration_function_nonneg)
  qed
qed

lemma pdf_loop_nonneg:
  assumes c: "nonneg_contracts L"
  shows "pdf_loop L e x pts acc = Inr v \<Longrightarrow> 0 \<le> acc \<Longrightarrow> 0 \<le> v"
proof (induction pts arbitrary: acc)
  case Nil
  then show ?case by simp
next
  case (Cons z_vals pts)
  from Cons.prems(1) obtain dc where dc: "pdf_term L e x z_vals = Inr dc"
    and rest: "pdf_loop L e x pts (acc + dc) = Inr v"
    by (auto simp: ebind_eq_Inr)
  from c dc have "0 \<le> dc" by (rule pdf_term_nonneg)
  with Cons.prems(2) have "0 \<le> acc + dc" by (rule nonneg_contractsD(5) [OF c])
  with rest show ?case by (rule Cons.IH)
qed

text \<open>
  C5. When the consumed interfaces honour their contracts (\<open>nonneg_contracts\<close>), every
  value \<open>pdf\<close> returns is nonnegative, for every estimator and query, in each of the four
  branches.
\<close>

theorem pdf_nonnegative:
  assumes c: "nonneg_contracts L" and res: "pdf L e x = Inr v"
  shows "0 \<le> v"
proof -
  from res obtain xq where xq: "select x (causes e @ effects e) = Inr xq"
    unfolding pdf_def by (auto simp: ebind_eq_Inr)
  consider (discrete) "discrete_Z e \<noteq> []"
    | (continuous) "discrete_Z e = []" "continuous_Z e \<noteq> []"
    | (none) "discrete_Z e = []" "continuous_Z e = []"
    by blast
  then show ?thesis
  proof cases
    case discrete
    with res xq obtain rs where "pdf_loop L e xq (product_lists rs) 0 = Inr v"
      unfolding pdf_def by (auto simp: ebind_eq_Inr)
    with c show ?thesis
      by (rule pdf_loop_nonneg) (rule nonneg_contractsD(4) [OF c])
  next
    case continuous
    with res xq obtain box where
      q: "nquad L (\<lambda>pt. integration_function L e (pt @ row_values xq)) box = Inr v"
      unfolding pdf_def by (auto simp: ebind_eq_Inr)
    show ?thesis
    proof (rule nonneg_contractsD(3) [OF c _ q])
      fix p w assume "integration_function L e (p @ row_values xq) = Inr w"
      with c show "0 \<le> w" by (rule integration_function_nonneg)
    qed
  next
    case none
    with res xq show ?thesis
      unfolding pdf_def by (auto simp: ebind_eq_Inr intro!: nonneg_contractsD(2) [OF c])
  qed
qed

theorem pdf_nonnegative_witness:
  "\<exists>e. CausalEffect_init toy_libs toy_X [''c''] [''d''] [''z'', ''a''] (Some toy_types) True = Inr e \<and>
       pdf toy_libs e [(''c'', 2), (''d'', 5)] = Inr 451 \<and> (0 :: int) \<le> 451"
proof -
  have contracts: "nonneg_contracts toy_libs"
    unfolding nonneg_contracts_def toy_libs_def
    by (auto intro!: add_nonneg_nonneg sum_list_nonneg mult_nonneg_nonneg)
  have "\<exists>e. CausalEffect_init toy_libs toy_X [''c''] [''d''] [''z'', ''a''] (Some toy_types) True
              = Inr e \<and>
            pdf toy_libs e [(''c'', 2), (''d'', 5)] = Inr 451"
    by (simp add: toy_simps query_simps)
  then obtain e where
    e: "CausalEffect_init toy_libs toy_X [''c''] [''d''] [''z'', ''a''] (Some toy_types) True = Inr e"
    and p: "pdf toy_libs e [(''c'', 2), (''d'', 5)] = Inr 451"
    by blast
  from pdf_nonnegative [OF contracts p] have "(0 :: int) \<le> 451" .
  with e p show ?thesis by blast
qed

(*CLAIMS*)

end
